theory Spec2Isabelle
  imports Main "HOL-Library.Sublist"
begin

section \<open>Python values used by app.py\<close>

text \<open>
  Exceptions are values. Only the class of an exception matters to app.py: its single
  handler is \<^verbatim>\<open>except IndexError\<close>, and \<open>IndexError\<close> stands for every exception that this
  handler catches (the class and its subclasses). \<open>OtherError\<close> stands for every class
  that is not one of the four built-in ones named here (transport, quota and
  authentication failures of the provider's client library).

  Python strings are modelled as lists of characters; the operations below only compare
  characters for equality.
\<close>

datatype exn = IndexError | ValueError | AttributeError | TypeError | OtherError string

text \<open>\<^verbatim>\<open>xs[i]\<close> for a non-negative index: out of range raises IndexError.\<close>

definition index :: "'a list \<Rightarrow> nat \<Rightarrow> exn + 'a" where
  "index xs i = (if i < length xs then Inr (xs ! i) else Inl IndexError)"

text \<open>\<^verbatim>\<open>sep.join(xs)\<close>: the elements of \<open>xs\<close> with \<open>sep\<close> between neighbours.\<close>

fun join :: "string \<Rightarrow> string list \<Rightarrow> string" where
  "join sep [] = []"
| "join sep [x] = x"
| "join sep (x # y # ys) = x @ sep @ join sep (y # ys)"

text \<open>
  \<^verbatim>\<open>s.replace(old, new)\<close>: the occurrences of \<open>old\<close> are found from the left and do not
  overlap; the scan resumes behind each occurrence it replaced. For the empty \<open>old\<close>
  Python puts \<open>new\<close> in front of every character and at the end.
\<close>

fun replace_from :: "string \<Rightarrow> string \<Rightarrow> string \<Rightarrow> string" where
  "replace_from old new [] = []"
| "replace_from old new (c # cs) =
     (if old \<noteq> [] \<and> prefix old (c # cs)
      then new @ replace_from old new (drop (length old) (c # cs))
      else c # replace_from old new cs)"

definition replace :: "string \<Rightarrow> string \<Rightarrow> string \<Rightarrow> string" where
  "replace s old new =
     (if old = [] then new @ concat (map (\<lambda>c. c # new) s) else replace_from old new s)"

text \<open>
  \<^verbatim>\<open>s.split(sep)\<close>: the pieces of \<open>s\<close> between the occurrences of \<open>sep\<close>, found from the
  left without overlap; one piece more than there are occurrences. The empty separator
  raises ValueError. \<open>cur\<close> is the piece being read.
\<close>

fun split_from :: "string \<Rightarrow> string \<Rightarrow> string \<Rightarrow> string list" where
  "split_from sep cur [] = [cur]"
| "split_from sep cur (c # cs) =
     (if sep \<noteq> [] \<and> prefix sep (c # cs)
      then cur # split_from sep [] (drop (length sep) (c # cs))
      else split_from sep (cur @ [c]) cs)"

definition split :: "string \<Rightarrow> string \<Rightarrow> exn + string list" where
  "split s sep = (if sep = [] then Inl ValueError else Inr (split_from sep [] s))"


section \<open>The provider's objects\<close>

text \<open>
  A \<^verbatim>\<open>GenerationResponse\<close> is opaque to app.py except for its property \<^verbatim>\<open>text\<close>, whose
  evaluation either gives a string or raises. The record holds the outcome of that
  evaluation; whatever else the object carries is the record's extension.
\<close>

record GenerationResponse =
  r_text :: "exn + string"

text \<open>
  One step of iterating a streamed response: the iterator hands over the next chunk, or
  it raises. The end of the list is the end of the stream.
\<close>

datatype 'r step = Yield 'r | Fail exn

text \<open>
  What \<^verbatim>\<open>model.generate_content(...)\<close> returns: one response object, or an iterable of
  chunks.
\<close>

datatype 'r responses = Single 'r | Stream "'r step list"

text \<open>A \<^verbatim>\<open>GenerativeModel\<close>, of which app.py reads the attribute \<^verbatim>\<open>_model_name\<close>.\<close>

record GenerativeModel =
  model_name_attr :: string


section \<open>app.py\<close>

subsection \<open>get_gemini_response\<close>

text \<open>
  The loop of lines 57 to 62, over the steps the iterator has not delivered yet, with the
  list \<^verbatim>\<open>final_response\<close> built so far. It returns the finished list or the exception that
  left the loop, and the steps that were never asked for.
\<close>

fun final_response_loop ::
  "('a GenerationResponse_scheme) step list \<Rightarrow> string list
     \<Rightarrow> (exn + string list) \<times> ('a GenerationResponse_scheme) step list" where
  "final_response_loop [] final_response = (Inr final_response, [])"
| "final_response_loop (Fail e # rest) final_response = (Inl e, rest)"
| "final_response_loop (Yield r # rest) final_response =
     (case r_text r of
        Inr t \<Rightarrow> final_response_loop rest (final_response @ [t])
      | Inl e \<Rightarrow>
          if e = IndexError then final_response_loop rest (final_response @ [''''])
          else (Inl e, rest))"

text \<open>
  \<open>generated\<close> is the outcome of the call \<^verbatim>\<open>model.generate_content(..., stream=stream)\<close> of
  lines 46 to 51, which may itself raise. An iterable has no attribute \<^verbatim>\<open>text\<close>
  (AttributeError), and a single response object cannot be iterated (TypeError).
\<close>

definition get_gemini_response ::
  "exn + ('a GenerationResponse_scheme) responses \<Rightarrow> bool \<Rightarrow> exn + string" where
  "get_gemini_response generated stream =
     (case generated of
        Inl e \<Rightarrow> Inl e
      | Inr responses \<Rightarrow>
          if \<not> stream then
            (case responses of
               Single r \<Rightarrow> r_text r
             | Stream steps \<Rightarrow> Inl AttributeError)
          else
            (case responses of
               Single r \<Rightarrow> Inl TypeError
             | Stream steps \<Rightarrow>
                 (case fst (final_response_loop steps []) of
                    Inl e \<Rightarrow> Inl e
                  | Inr final_response \<Rightarrow> Inr (join '' '' final_response))))"

subsection \<open>get_model_name\<close>

definition get_model_name :: "'a GenerativeModel_scheme \<Rightarrow> string" where
  "get_model_name model =
     (let model_name = replace (model_name_attr model) ''publishers/google/models/'' ''''
      in ''`'' @ model_name @ ''`'')"

subsection \<open>get_storage_url\<close>

definition get_storage_url :: "string \<Rightarrow> exn + string" where
  "get_storage_url gcs_uri =
     (case split gcs_uri ''gs://'' of
        Inl e \<Rightarrow> Inl e
      | Inr parts \<Rightarrow>
          (case index parts 1 of
             Inl e \<Rightarrow> Inl e
           | Inr part \<Rightarrow> Inr (''https://storage.googleapis.com/'' @ part)))"

section \<open>Statement helpers\<close>

text \<open>
  The entry that lines 58 to 61 append for a chunk whose text is present (the text) or
  absent with IndexError (the empty string).
\<close>

definition chunk_entry :: "'a GenerationResponse_scheme \<Rightarrow> string" where
  "chunk_entry r = (case r_text r of Inr t \<Rightarrow> t | Inl e \<Rightarrow> '''')"


section \<open>The loop over the chunks\<close>

lemma loop_append_recovered:
  "\<forall>r\<in>set cs. r_text r = Inl IndexError \<or> (\<exists>t. r_text r = Inr t) \<Longrightarrow>
   final_response_loop (map Yield cs @ rest) acc =
     final_response_loop rest (acc @ map chunk_entry cs)"
proof (induction cs arbitrary: acc)
  case Nil
  show ?case by simp
next
  case (Cons r cs)
  then show ?case by (auto simp: chunk_entry_def)
qed

lemma loop_recovered:
  "\<forall>r\<in>set cs. r_text r = Inl IndexError \<or> (\<exists>t. r_text r = Inr t) \<Longrightarrow>
   final_response_loop (map Yield cs) acc = (Inr (acc @ map chunk_entry cs), [])"
  using loop_append_recovered [of cs "[]" acc] by simp

lemma entries_of_texts: "map r_text cs = map Inr ts \<Longrightarrow> map chunk_entry cs = ts"
  by (induction cs arbitrary: ts) (auto simp: chunk_entry_def)

lemma texts_all_present:
  assumes "map r_text cs = map Inr ts"
  shows "\<forall>r\<in>set cs. r_text r = Inl IndexError \<or> (\<exists>t. r_text r = Inr t)"
proof
  fix r assume "r \<in> set cs"
  then have "r_text r \<in> set (map r_text cs)" by simp
  with assms have "r_text r \<in> set (map Inr ts)" by simp
  then show "r_text r = Inl IndexError \<or> (\<exists>t. r_text r = Inr t)" by auto
qed

text \<open>
  The outcome of the loop is decided by what the iterator does at each step and by what
  reading \<^verbatim>\<open>text\<close> gives for each chunk; nothing else of a chunk is looked at.
\<close>

lemma loop_observed:
  "map (map_step r_text) ss = map (map_step r_text) ss' \<Longrightarrow>
   fst (final_response_loop ss acc) = fst (final_response_loop ss' acc)"
proof (induction ss acc arbitrary: ss' rule: final_response_loop.induct)
  case (1 final_response)
  then show ?case by simp
next
  case (2 e rest final_response)
  then obtain s' rest' where "ss' = s' # rest'" by (cases ss') auto
  with 2 show ?case by (cases s') auto
next
  case (3 r rest final_response)
  then obtain s' rest' where "ss' = s' # rest'" by (cases ss') auto
  with 3 show ?case by (cases s') (auto split: sum.splits)
qed

text \<open>A failure of the call itself, or of the iterator, leaves the function as it is.\<close>

lemma generate_content_raises: "get_gemini_response (Inl e) stream = Inl e"
  by (simp add: get_gemini_response_def)

lemma iterator_raises:
  "\<forall>r\<in>set cs. r_text r = Inl IndexError \<or> (\<exists>t. r_text r = Inr t) \<Longrightarrow>
   get_gemini_response (Inr (Stream (map Yield cs @ Fail e # post))) True = Inl e"
  by (simp add: get_gemini_response_def loop_append_recovered)


section \<open>The response assembler\<close>

text \<open>
  C1. A streamed response whose chunks all have a text: the result is the texts of the
  chunks, in the order of arrival, with one space between neighbours. Nothing is
  reordered and nothing is dropped, repeated texts included.
\<close>

theorem stream_joins_texts_in_order:
  "map r_text cs = map Inr ts \<Longrightarrow>
   get_gemini_response (Inr (Stream (map Yield cs))) True = Inr (join '' '' ts)"
proof -
  assume texts: "map r_text cs = map Inr ts"
  have "final_response_loop (map Yield cs) [] = (Inr (map chunk_entry cs), [])"
    using loop_recovered [OF texts_all_present [OF texts], of "[]"] by simp
  then show ?thesis
    using entries_of_texts [OF texts] by (simp add: get_gemini_response_def)
qed

theorem stream_joins_texts_in_order_witness:
  "map r_text [\<lparr>r_text = Inr ''b''\<rparr>, \<lparr>r_text = Inr ''a''\<rparr>, \<lparr>r_text = Inr ''a''\<rparr>]
     = map Inr [''b'', ''a'', ''a'']
   \<and> get_gemini_response
       (Inr (Stream (map Yield
          [\<lparr>r_text = Inr ''b''\<rparr>, \<lparr>r_text = Inr ''a''\<rparr>, \<lparr>r_text = Inr ''a''\<rparr>]))) True
     = Inr ''b a a''"
  using stream_joins_texts_in_order
    [of "[\<lparr>r_text = Inr ''b''\<rparr>, \<lparr>r_text = Inr ''a''\<rparr>, \<lparr>r_text = Inr ''a''\<rparr>]"
        "[''b'', ''a'', ''a'']"]
  by simp

text \<open>
  C2, as the code has it. The handler of line 60 recovers from IndexError and from
  nothing else. A streamed response of n chunks, each of which has a text or fails with
  IndexError when its text is read: the loop runs to the end of the stream, the list it
  built has one entry for each chunk (n entries), the entry of a chunk that failed with
  IndexError is the empty string at that chunk's position, and the result is that list
  joined with single spaces. For the chunks "Hello", IndexError, "world" the result is
  "Hello  world".
\<close>

theorem absent_chunk_gets_placeholder:
  assumes "\<forall>r\<in>set cs. r_text r = Inl IndexError \<or> (\<exists>t. r_text r = Inr t)"
  shows "final_response_loop (map Yield cs) [] = (Inr (map chunk_entry cs), [])
       \<and> length (map chunk_entry cs) = length cs
       \<and> (\<forall>k<length cs. r_text (cs ! k) = Inl IndexError \<longrightarrow> map chunk_entry cs ! k = '''')
       \<and> (\<forall>k<length cs. \<forall>t. r_text (cs ! k) = Inr t \<longrightarrow> map chunk_entry cs ! k = t)
       \<and> get_gemini_response (Inr (Stream (map Yield cs))) True
           = Inr (join '' '' (map chunk_entry cs))
       \<and> get_gemini_response
           (Inr (Stream [Yield \<lparr>r_text = Inr ''Hello''\<rparr>, Yield \<lparr>r_text = Inl IndexError\<rparr>,
                         Yield \<lparr>r_text = Inr ''world''\<rparr>])) True
           = Inr ''Hello  world''"
proof -
  have run: "final_response_loop (map Yield cs) [] = (Inr (map chunk_entry cs), [])"
    using loop_recovered [OF assms, of "[]"] by simp
  have result: "get_gemini_response (Inr (Stream (map Yield cs))) True
      = Inr (join '' '' (map chunk_entry cs))"
    using run by (simp add: get_gemini_response_def)
  have absent: "\<forall>k<length cs. r_text (cs ! k) = Inl IndexError \<longrightarrow> map chunk_entry cs ! k = ''''"
    by (simp add: chunk_entry_def)
  have present: "\<forall>k<length cs. \<forall>t. r_text (cs ! k) = Inr t \<longrightarrow> map chunk_entry cs ! k = t"
    by (simp add: chunk_entry_def)
  have scenario: "get_gemini_response
      (Inr (Stream [Yield \<lparr>r_text = Inr ''Hello''\<rparr>, Yield \<lparr>r_text = Inl IndexError\<rparr>,
                    Yield \<lparr>r_text = Inr ''world''\<rparr>])) True = Inr ''Hello  world''"
    by (simp add: get_gemini_response_def)
  from run result absent present scenario show ?thesis by simp
qed

theorem absent_chunk_gets_placeholder_witness:
  "final_response_loop
       (map Yield [\<lparr>r_text = Inr ''Hello''\<rparr>, \<lparr>r_text = Inl IndexError\<rparr>, \<lparr>r_text = Inr ''world''\<rparr>])
       []
     = (Inr [''Hello'', '''', ''world''], [])
   \<and> get_gemini_response
       (Inr (Stream (map Yield
          [\<lparr>r_text = Inr ''Hello''\<rparr>, \<lparr>r_text = Inl IndexError\<rparr>, \<lparr>r_text = Inr ''world''\<rparr>])))
       True
     = Inr ''Hello  world''"
  using absent_chunk_gets_placeholder
    [of "[\<lparr>r_text = Inr ''Hello''\<rparr>, \<lparr>r_text = Inl IndexError\<rparr>, \<lparr>r_text = Inr ''world''\<rparr>]"]
  by (simp add: chunk_entry_def)

text \<open>
  A chunk without payload is not always recovered. When the text field is missing
  (AttributeError), or when the client library reports the absent payload with
  ValueError, the loop stops at that chunk: the function raises, no placeholder is
  appended, and the chunk "world" behind it is never read.
\<close>

theorem missing_payload_not_always_recovered:
  "final_response_loop
       [Yield \<lparr>r_text = Inr ''Hello''\<rparr>, Yield \<lparr>r_text = Inl AttributeError\<rparr>,
        Yield \<lparr>r_text = Inr ''world''\<rparr>] []
     = (Inl AttributeError, [Yield \<lparr>r_text = Inr ''world''\<rparr>])
   \<and> get_gemini_response
       (Inr (Stream [Yield \<lparr>r_text = Inr ''Hello''\<rparr>, Yield \<lparr>r_text = Inl AttributeError\<rparr>,
                     Yield \<lparr>r_text = Inr ''world''\<rparr>])) True
     = Inl AttributeError
   \<and> get_gemini_response
       (Inr (Stream [Yield \<lparr>r_text = Inr ''Hello''\<rparr>, Yield \<lparr>r_text = Inl AttributeError\<rparr>,
                     Yield \<lparr>r_text = Inr ''world''\<rparr>])) True
     \<noteq> Inr ''Hello  world''
   \<and> get_gemini_response
       (Inr (Stream [Yield \<lparr>r_text = Inr ''Hello''\<rparr>, Yield \<lparr>r_text = Inl ValueError\<rparr>,
                     Yield \<lparr>r_text = Inr ''world''\<rparr>])) True
     = Inl ValueError"
  by (simp add: get_gemini_response_def)

text \<open>
  C3. Without streaming, a response whose text is present: the result is that text,
  unchanged.
\<close>

theorem single_text_verbatim:
  "r_text r = Inr P \<Longrightarrow> get_gemini_response (Inr (Single r)) False = Inr P"
  by (simp add: get_gemini_response_def)

theorem single_text_verbatim_witness:
  "r_text \<lparr>r_text = Inr '' Syllabus: ...  ''\<rparr> = Inr '' Syllabus: ...  ''
   \<and> get_gemini_response (Inr (Single \<lparr>r_text = Inr '' Syllabus: ...  ''\<rparr>)) False
     = Inr '' Syllabus: ...  ''"
  using single_text_verbatim [of "\<lparr>r_text = Inr '' Syllabus: ...  ''\<rparr>" "'' Syllabus: ...  ''"]
  by simp

text \<open>
  C4. Without streaming, whatever reading the text raises (IndexError included) is what
  the function raises. With streaming, when the chunks before chunk \<open>r\<close> have a text or
  fail with IndexError and reading the text of \<open>r\<close> raises anything but IndexError, the
  function raises that same exception, and the steps behind \<open>r\<close> are left with the
  iterator: the loop does not go on.
\<close>

theorem other_failures_propagate:
  "(r_text r0 = Inl e0 \<longrightarrow> get_gemini_response (Inr (Single r0)) False = Inl e0)
   \<and> ((\<forall>c\<in>set pre. r_text c = Inl IndexError \<or> (\<exists>t. r_text c = Inr t))
        \<and> r_text r = Inl e \<and> e \<noteq> IndexError \<longrightarrow>
      final_response_loop (map Yield pre @ Yield r # post) [] = (Inl e, post)
      \<and> get_gemini_response (Inr (Stream (map Yield pre @ Yield r # post))) True = Inl e)"
  by (simp add: get_gemini_response_def loop_append_recovered)

theorem other_failures_propagate_witness:
  "r_text \<lparr>r_text = Inl IndexError\<rparr> = Inl IndexError
   \<and> get_gemini_response (Inr (Single \<lparr>r_text = Inl IndexError\<rparr>)) False = Inl IndexError
   \<and> OtherError ''transport'' \<noteq> IndexError
   \<and> final_response_loop
       (map Yield [\<lparr>r_text = Inr ''Hello''\<rparr>, \<lparr>r_text = Inl IndexError\<rparr>]
          @ Yield \<lparr>r_text = Inl (OtherError ''transport'')\<rparr>
          # [Yield \<lparr>r_text = Inr ''world''\<rparr>]) []
     = (Inl (OtherError ''transport''), [Yield \<lparr>r_text = Inr ''world''\<rparr>])
   \<and> get_gemini_response
       (Inr (Stream (map Yield [\<lparr>r_text = Inr ''Hello''\<rparr>, \<lparr>r_text = Inl IndexError\<rparr>]
          @ Yield \<lparr>r_text = Inl (OtherError ''transport'')\<rparr>
          # [Yield \<lparr>r_text = Inr ''world''\<rparr>]))) True
     = Inl (OtherError ''transport'')"
  using other_failures_propagate
    [of "\<lparr>r_text = Inl IndexError\<rparr>" IndexError
        "[\<lparr>r_text = Inr ''Hello''\<rparr>, \<lparr>r_text = Inl IndexError\<rparr>]"
        "\<lparr>r_text = Inl (OtherError ''transport'')\<rparr>" "OtherError ''transport''"
        "[Yield \<lparr>r_text = Inr ''world''\<rparr>]"]
  by simp

text \<open>C5. A streamed response without chunks: the result is the empty string.\<close>

theorem empty_stream_gives_empty_string:
  "get_gemini_response (Inr (Stream [])) True = Inr ''''"
  by (simp add: get_gemini_response_def)

text \<open>
  C6. Two streamed responses that agree, step by step, in what the iterator does and in
  what reading the text of each chunk gives, have the same result, whatever else the
  chunks carry. The result is a function of the chunk texts and their order alone.
\<close>

theorem result_depends_on_texts_only:
  "map (map_step r_text) steps = map (map_step r_text) steps' \<Longrightarrow>
   get_gemini_response (Inr (Stream steps)) True = get_gemini_response (Inr (Stream steps')) True"
  using loop_observed [of steps steps' "[]"] by (simp add: get_gemini_response_def)

theorem result_depends_on_texts_only_witness:
  "map (map_step r_text)
     [Yield \<lparr>r_text = Inr ''Hello'', \<dots> = (1::nat)\<rparr>, Yield \<lparr>r_text = Inl IndexError, \<dots> = 2\<rparr>,
      Yield \<lparr>r_text = Inr ''world'', \<dots> = 3\<rparr>]
   = map (map_step r_text)
     [Yield \<lparr>r_text = Inr ''Hello'', \<dots> = True\<rparr>, Yield \<lparr>r_text = Inl IndexError, \<dots> = False\<rparr>,
      Yield \<lparr>r_text = Inr ''world'', \<dots> = True\<rparr>]
   \<and> get_gemini_response (Inr (Stream
       [Yield \<lparr>r_text = Inr ''Hello'', \<dots> = (1::nat)\<rparr>, Yield \<lparr>r_text = Inl IndexError, \<dots> = 2\<rparr>,
        Yield \<lparr>r_text = Inr ''world'', \<dots> = 3\<rparr>])) True
     = get_gemini_response (Inr (Stream
       [Yield \<lparr>r_text = Inr ''Hello'', \<dots> = True\<rparr>, Yield \<lparr>r_text = Inl IndexError, \<dots> = False\<rparr>,
        Yield \<lparr>r_text = Inr ''world'', \<dots> = True\<rparr>])) True"
  using result_depends_on_texts_only
    [of "[Yield \<lparr>r_text = Inr ''Hello'', \<dots> = (1::nat)\<rparr>, Yield \<lparr>r_text = Inl IndexError, \<dots> = 2\<rparr>,
          Yield \<lparr>r_text = Inr ''world'', \<dots> = 3\<rparr>]"
        "[Yield \<lparr>r_text = Inr ''Hello'', \<dots> = True\<rparr>, Yield \<lparr>r_text = Inl IndexError, \<dots> = False\<rparr>,
          Yield \<lparr>r_text = Inr ''world'', \<dots> = True\<rparr>]"]
  by simp

section \<open>Occurrences of a separator\<close>

text \<open>
  \<open>sublist old s\<close> says that \<open>old\<close> occurs in \<open>s\<close> (Python's \<^verbatim>\<open>old in s\<close>). Both separators
  of app.py start with a character that they do not contain again, so two occurrences
  of one of them never overlap, and the scan from the left finds every occurrence.
\<close>

lemma replace_from_absent: "\<not> sublist old s \<Longrightarrow> replace_from old new s = s"
  by (induction s) (auto simp: sublist_Cons_right)

lemma split_from_absent: "\<not> sublist sep s \<Longrightarrow> split_from sep cur s = [cur @ s]"
  by (induction s arbitrary: cur) (auto simp: sublist_Cons_right)

lemma no_straddle:
  assumes "p \<notin> set ps" and "a \<noteq> []" and "prefix (p # ps) (a @ (p # ps) @ b)"
  shows "prefix (p # ps) a"
proof -
  from assms(3)
  have "prefix (p # ps) a \<or> (\<exists>us. p # ps = a @ us \<and> prefix us ((p # ps) @ b))"
    by (simp only: prefix_append)
  then consider "prefix (p # ps) a"
    | us where "p # ps = a @ us" and "prefix us ((p # ps) @ b)"
    by blast
  then show ?thesis
  proof cases
    case 1
    then show ?thesis .
  next
    case 2
    from 2(1) assms(2) obtain a' where a: "a = p # a'" and ps: "ps = a' @ us"
      by (cases a) auto
    show ?thesis
    proof (cases us)
      case Nil
      with 2(1) show ?thesis by simp
    next
      case (Cons u us')
      with 2(2) have "u = p" by simp
      with Cons ps have "p \<in> set ps" by simp
      with assms(1) show ?thesis by simp
    qed
  qed
qed

lemma replace_from_occurrence:
  assumes "p \<notin> set ps" and "\<not> sublist (p # ps) a"
  shows "replace_from (p # ps) new (a @ (p # ps) @ b) = a @ new @ replace_from (p # ps) new b"
  using assms(2)
proof (induction a)
  case Nil
  show ?case by simp
next
  case (Cons c a)
  from Cons.prems have np: "\<not> prefix (p # ps) (c # a)" and ns: "\<not> sublist (p # ps) a"
    by (simp_all add: sublist_Cons_right)
  have "\<not> prefix (p # ps) ((c # a) @ (p # ps) @ b)"
    using no_straddle [OF assms(1), of "c # a" b] np by blast
  then have "replace_from (p # ps) new ((c # a) @ (p # ps) @ b)
      = c # replace_from (p # ps) new (a @ (p # ps) @ b)"
    by auto
  with Cons.IH [OF ns] show ?case by simp
qed

lemma split_from_occurrence:
  assumes "p \<notin> set ps" and "\<not> sublist (p # ps) a"
  shows "split_from (p # ps) cur (a @ (p # ps) @ b) = (cur @ a) # split_from (p # ps) [] b"
  using assms(2)
proof (induction a arbitrary: cur)
  case Nil
  show ?case by simp
next
  case (Cons c a)
  from Cons.prems have np: "\<not> prefix (p # ps) (c # a)" and ns: "\<not> sublist (p # ps) a"
    by (simp_all add: sublist_Cons_right)
  have "\<not> prefix (p # ps) ((c # a) @ (p # ps) @ b)"
    using no_straddle [OF assms(1), of "c # a" b] np by blast
  then have "split_from (p # ps) cur ((c # a) @ (p # ps) @ b)
      = split_from (p # ps) (cur @ [c]) (a @ (p # ps) @ b)"
    by auto
  with Cons.IH [OF ns, of "cur @ [c]"] show ?case by simp
qed

lemma replace_from_join:
  assumes "p \<notin> set ps" and "\<forall>s\<in>set segs. \<not> sublist (p # ps) s"
  shows "replace_from (p # ps) new (join (p # ps) segs) = join new segs"
  using assms(2)
proof (induction segs rule: induct_list012)
  case 1
  show ?case by simp
next
  case (2 x)
  then show ?case by (simp add: replace_from_absent)
next
  case (3 x y zs)
  from "3.prems" have x: "\<not> sublist (p # ps) x" and rest: "\<forall>s\<in>set (y # zs). \<not> sublist (p # ps) s"
    by simp_all
  have "replace_from (p # ps) new (join (p # ps) (x # y # zs))
      = x @ new @ replace_from (p # ps) new (join (p # ps) (y # zs))"
    using replace_from_occurrence [OF assms(1) x, of new "join (p # ps) (y # zs)"] by simp
  with "3.IH"(2) [OF rest] show ?case by simp
qed

lemma join_empty: "join [] segs = concat segs"
  by (induction segs rule: induct_list012) simp_all

lemma replace_absent: "\<not> sublist old s \<Longrightarrow> replace s old new = s"
  by (auto simp: replace_def replace_from_absent)

text \<open>Every string is a sequence of pieces free of the separator, with the separator between them.\<close>

lemma leftmost_occurrence:
  "old \<noteq> [] \<Longrightarrow> sublist old s \<Longrightarrow> \<exists>a b. s = a @ old @ b \<and> \<not> sublist old a"
proof (induction s)
  case Nil
  then show ?case by simp
next
  case (Cons c cs)
  show ?case
  proof (cases "prefix old (c # cs)")
    case True
    then obtain b where "c # cs = [] @ old @ b" by (auto simp: prefix_def)
    moreover have "\<not> sublist old []" using Cons.prems(1) by simp
    ultimately show ?thesis by blast
  next
    case False
    with Cons.prems(2) have "sublist old cs" by (simp add: sublist_Cons_right)
    from Cons.IH [OF Cons.prems(1) this]
    obtain a b where cs: "cs = a @ old @ b" and a: "\<not> sublist old a" by blast
    have "\<not> prefix old (c # a)"
    proof
      assume "prefix old (c # a)"
      then have "prefix old ((c # a) @ old @ b)" by (rule prefix_prefix)
      with cs False show False by simp
    qed
    with a have "\<not> sublist old (c # a)" by (simp add: sublist_Cons_right)
    moreover from cs have "c # cs = (c # a) @ old @ b" by simp
    ultimately show ?thesis by blast
  qed
qed

lemma segments_exist:
  assumes "old \<noteq> []"
  shows "\<exists>segs. segs \<noteq> [] \<and> s = join old segs \<and> (\<forall>seg\<in>set segs. \<not> sublist old seg)"
proof (induction s rule: length_induct)
  case (1 s)
  show ?case
  proof (cases "sublist old s")
    case False
    then have "[s] \<noteq> [] \<and> s = join old [s] \<and> (\<forall>seg\<in>set [s]. \<not> sublist old seg)" by simp
    then show ?thesis by blast
  next
    case True
    from leftmost_occurrence [OF assms True]
    obtain a b where s: "s = a @ old @ b" and a: "\<not> sublist old a" by blast
    from s assms have "length b < length s" by (cases old) simp_all
    with 1 obtain segs where segs: "segs \<noteq> []" "b = join old segs"
        "\<forall>seg\<in>set segs. \<not> sublist old seg"
      by blast
    from segs(1) obtain x xs where "segs = x # xs" by (cases segs) auto
    with s segs(2) have "s = join old (a # segs)" by simp
    moreover from a segs(3) have "\<forall>seg\<in>set (a # segs). \<not> sublist old seg" by simp
    ultimately show ?thesis by blast
  qed
qed


section \<open>get_storage_url\<close>

text \<open>
  A reference with the marker at its start and nowhere else is converted as a whole, the
  example of the specification among them.
\<close>

lemma storage_url_one_marker:
  assumes "\<not> sublist ''gs://'' rest"
  shows "get_storage_url (''gs://'' @ rest) = Inr (''https://storage.googleapis.com/'' @ rest)"
proof -
  have "split_from ''gs://'' [] ([] @ ''gs://'' @ rest) = ([] @ []) # split_from ''gs://'' [] rest"
    by (rule split_from_occurrence) simp_all
  then have "split_from ''gs://'' [] (''gs://'' @ rest) = [[], rest]"
    using split_from_absent [OF assms, of "[]"] by simp
  then show ?thesis by (simp add: get_storage_url_def split_def index_def)
qed

lemma storage_url_example:
  "get_storage_url ''gs://my-bucket/path/to/object.txt''
     = Inr ''https://storage.googleapis.com/my-bucket/path/to/object.txt''"
  by (simp add: get_storage_url_def split_def index_def)

text \<open>
  C7. For a reference \<^verbatim>\<open>gs://bucket/object-path\<close> the URL is to be the public base followed
  by everything behind the marker. The function takes the second piece of a split at every
  marker, so an object path that contains the marker again is cut there: the reference
  \<^verbatim>\<open>gs://my-bucket/path/gs://object.txt\<close> gives the URL of \<^verbatim>\<open>my-bucket/path/\<close>.
\<close>

theorem storage_url_cut_at_second_marker:
  "get_storage_url ''gs://my-bucket/path/gs://object.txt''
     = Inr ''https://storage.googleapis.com/my-bucket/path/''"
  by (simp add: get_storage_url_def split_def index_def)




section \<open>get_model_name\<close>

text \<open>
  C9, as the code has it. The label is the identifier without the occurrences of
  \<^verbatim>\<open>publishers/google/models/\<close>, between backticks, and the function always returns.
  An identifier that starts with that prefix and does not contain it again gives the
  rest of the identifier; an identifier in which it occurs nowhere is returned
  unchanged; \<^verbatim>\<open>publishers/google/models/gemini-1.5-pro\<close> gives \<^verbatim>\<open>gemini-1.5-pro\<close> between
  backticks.
\<close>

theorem model_name_label:
  "(model_name_attr model = ''publishers/google/models/'' @ name
      \<and> \<not> sublist ''publishers/google/models/'' name
    \<longrightarrow> get_model_name model = ''`'' @ name @ ''`'')
   \<and> (\<not> sublist ''publishers/google/models/'' (model_name_attr model)
    \<longrightarrow> get_model_name model = ''`'' @ model_name_attr model @ ''`'')
   \<and> get_model_name \<lparr>model_name_attr = ''publishers/google/models/gemini-1.5-pro''\<rparr>
     = ''`gemini-1.5-pro`''"
proof -
  have stripped: "get_model_name model = ''`'' @ name @ ''`''"
    if attr: "model_name_attr model = ''publishers/google/models/'' @ name"
      and name: "\<not> sublist ''publishers/google/models/'' name" for name
  proof -
    have "replace_from ''publishers/google/models/'' '''' ([] @ ''publishers/google/models/'' @ name)
        = [] @ '''' @ replace_from ''publishers/google/models/'' '''' name"
      by (rule replace_from_occurrence) simp_all
    then have "replace (model_name_attr model) ''publishers/google/models/'' '''' = name"
      using attr replace_from_absent [OF name, of "''''"] by (simp add: replace_def)
    then show ?thesis by (simp add: get_model_name_def)
  qed
  have unchanged: "get_model_name model = ''`'' @ model_name_attr model @ ''`''"
    if "\<not> sublist ''publishers/google/models/'' (model_name_attr model)"
    using replace_absent [OF that, of "''''"] by (simp add: get_model_name_def)
  have example: "get_model_name \<lparr>model_name_attr = ''publishers/google/models/gemini-1.5-pro''\<rparr>
      = ''`gemini-1.5-pro`''"
    by (simp add: get_model_name_def replace_def)
  from stripped unchanged example show ?thesis by blast
qed

theorem model_name_label_witness:
  "\<not> sublist ''publishers/google/models/'' ''gemini-1.5-flash''
   \<and> get_model_name \<lparr>model_name_attr = ''publishers/google/models/gemini-1.5-flash''\<rparr>
     = ''`gemini-1.5-flash`''
   \<and> get_model_name \<lparr>model_name_attr = ''gemini-1.5-flash''\<rparr> = ''`gemini-1.5-flash`''"
  using model_name_label
      [of "\<lparr>model_name_attr = ''publishers/google/models/gemini-1.5-flash''\<rparr>" "''gemini-1.5-flash''"]
    model_name_label [of "\<lparr>model_name_attr = ''gemini-1.5-flash''\<rparr>" "[]"]
  by (simp add: sublist_Cons_right)

text \<open>
  Absence of the prefix is not enough for the identifier to come back unchanged: the
  fully qualified name below does not start with the prefix, and its label is shorter
  than the identifier.
\<close>

theorem model_name_not_prefix_stripping:
  "\<not> prefix ''publishers/google/models/''
       ''projects/p/locations/l/publishers/google/models/gemini-1.5-pro''
   \<and> get_model_name
       \<lparr>model_name_attr = ''projects/p/locations/l/publishers/google/models/gemini-1.5-pro''\<rparr>
     = ''`projects/p/locations/l/gemini-1.5-pro`''
   \<and> get_model_name
       \<lparr>model_name_attr = ''projects/p/locations/l/publishers/google/models/gemini-1.5-pro''\<rparr>
     \<noteq> ''`projects/p/locations/l/publishers/google/models/gemini-1.5-pro`''"
  by (simp add: get_model_name_def replace_def)

text \<open>
  C10. Every occurrence of \<^verbatim>\<open>publishers/google/models/\<close> is deleted, wherever it stands: an
  identifier made of segments free of that substring, with the substring between
  neighbouring segments, gives the segments one after the other, between backticks.
  Every identifier is made that way (\<open>segments_exist\<close>).
\<close>

theorem model_name_every_occurrence_removed:
  assumes "\<forall>s\<in>set segs. \<not> sublist ''publishers/google/models/'' s"
    and "model_name_attr model = join ''publishers/google/models/'' segs"
  shows "get_model_name model = ''`'' @ concat segs @ ''`''"
proof -
  have "replace_from ''publishers/google/models/'' '''' (join ''publishers/google/models/'' segs)
      = join '''' segs"
    using assms(1) by (intro replace_from_join) simp_all
  then show ?thesis using assms(2) by (simp add: get_model_name_def replace_def join_empty)
qed

theorem model_name_every_occurrence_removed_witness:
  "join ''publishers/google/models/'' [''projects/p/'', ''gemini-'', ''1.5'']
     = ''projects/p/publishers/google/models/gemini-publishers/google/models/1.5''
   \<and> get_model_name
     \<lparr>model_name_attr = ''projects/p/publishers/google/models/gemini-publishers/google/models/1.5''\<rparr>
     = ''`projects/p/gemini-1.5`''"
  using model_name_every_occurrence_removed
    [of "[''projects/p/'', ''gemini-'', ''1.5'']"
        "\<lparr>model_name_attr = ''projects/p/publishers/google/models/gemini-publishers/google/models/1.5''\<rparr>"]
  by (simp add: sublist_Cons_right)

end
